theory Spec2Isabelle
  imports Main
begin

section \<open>Python values, strings and exceptions\<close>

text \<open>
  The bot of \<^verbatim>\<open>twitter_bot.py\<close> keeps its state in two flat files and a log, and
  computes on Python strings, integers, lists and dictionaries. A Python \<^verbatim>\<open>str\<close> is
  modelled as a \<^typ>\<open>string\<close> whose characters are the code points below 256, a Python
  \<^verbatim>\<open>int\<close> as an \<^typ>\<open>int\<close> (unbounded; the interpreter's optional limit on the
  number of digits of a decimal conversion is not modelled), and an exception as a value
  of \<open>exn\<close> returned on the left of a sum.
\<close>

datatype exn =
    FileNotFoundError
  | JSONDecodeError
  | ValueError
  | KeyError
  | TypeError
  | AttributeError
  | OtherError string

text \<open>
  The values \<^verbatim>\<open>json.loads\<close> produces, floats apart (the quota file holds integer counts):
  \<^verbatim>\<open>None\<close>, booleans, integers, strings, lists, and dictionaries with string keys. A
  dictionary is an association list in insertion order.
\<close>

datatype pyval =
    PNone
  | PBool bool
  | PInt int
  | PStr string
  | PList "pyval list"
  | PDict "(string \<times> pyval) list"

subsection \<open>Dictionaries\<close>

text \<open>
  \<^verbatim>\<open>d[k] = v\<close>: an existing key keeps its position and takes the new value, a new key is
  added at the end. \<^verbatim>\<open>k in d.keys()\<close> and \<^verbatim>\<open>d[k]\<close> read the entry of \<open>k\<close>.
\<close>

fun dict_set :: "'k \<Rightarrow> 'v \<Rightarrow> ('k \<times> 'v) list \<Rightarrow> ('k \<times> 'v) list" where
  "dict_set k v [] = [(k, v)]"
| "dict_set k v ((k', v') # d) =
     (if k' = k then (k, v) # d else (k', v') # dict_set k v d)"

definition dict_get :: "('k \<times> 'v) list \<Rightarrow> 'k \<Rightarrow> 'v option" where
  "dict_get d k = map_of d k"

definition dict_keys :: "('k \<times> 'v) list \<Rightarrow> 'k list" where
  "dict_keys d = map fst d"

text \<open>\<^verbatim>\<open>{**a, **b}\<close>: a copy of \<open>a\<close> in which every item of \<open>b\<close> is then stored, in order.\<close>

definition dict_merge :: "('k \<times> 'v) list \<Rightarrow> ('k \<times> 'v) list \<Rightarrow> ('k \<times> 'v) list" where
  "dict_merge a b = fold (\<lambda>(k, v) d. dict_set k v d) b a"

subsection \<open>Strings\<close>

text \<open>\<^verbatim>\<open>str.isspace\<close> on one character: the white space among the code points below 256.\<close>

definition py_isspace :: "char \<Rightarrow> bool" where
  "py_isspace c =
     (let n = (of_char c :: nat)
      in (9 \<le> n \<and> n \<le> 13) \<or> (28 \<le> n \<and> n \<le> 32) \<or> n = 133 \<or> n = 160)"

text \<open>\<^verbatim>\<open>s.strip()\<close>: leading and trailing white space removed.\<close>

definition py_strip :: "string \<Rightarrow> string" where
  "py_strip s = rev (dropWhile py_isspace (rev (dropWhile py_isspace s)))"

text \<open>\<^verbatim>\<open>s.lower()\<close>: the upper-case letters below 256 sit 32 below their lower-case forms.\<close>

definition lower_char :: "char \<Rightarrow> char" where
  "lower_char c =
     (let n = (of_char c :: nat)
      in if (65 \<le> n \<and> n \<le> 90) \<or> (192 \<le> n \<and> n \<le> 214) \<or> (216 \<le> n \<and> n \<le> 222)
         then char_of (n + 32) else c)"

definition py_lower :: "string \<Rightarrow> string" where
  "py_lower s = map lower_char s"

text \<open>\<^verbatim>\<open>a in b\<close> on two strings: \<open>a\<close> occurs in \<open>b\<close> as a contiguous run of characters.\<close>

fun starts_with :: "string \<Rightarrow> string \<Rightarrow> bool" where
  "starts_with [] s = True"
| "starts_with (a # as) [] = False"
| "starts_with (a # as) (c # cs) = (a = c \<and> starts_with as cs)"

fun str_contains :: "string \<Rightarrow> string \<Rightarrow> bool" where
  "str_contains a [] = (a = [])"
| "str_contains a (c # cs) = (starts_with a (c # cs) \<or> str_contains a cs)"

subsection \<open>Decimal conversions\<close>

definition is_digit :: "char \<Rightarrow> bool" where
  "is_digit c = (let n = (of_char c :: nat) in 48 \<le> n \<and> n \<le> 57)"

definition digit_of :: "char \<Rightarrow> nat" where
  "digit_of c = (of_char c :: nat) - 48"

definition digit_char :: "nat \<Rightarrow> char" where
  "digit_char d = char_of (48 + d)"

fun dec :: "nat \<Rightarrow> string" where
  "dec n = (if n < 10 then [digit_char n] else dec (n div 10) @ [digit_char (n mod 10)])"

declare dec.simps [simp del]

text \<open>\<^verbatim>\<open>str(n)\<close> for an integer: a minus sign for a negative number, then the decimal digits.\<close>

definition py_str :: "int \<Rightarrow> string" where
  "py_str n = (if n < 0 then CHR ''-'' # dec (nat (- n)) else dec (nat n))"

text \<open>
  \<^verbatim>\<open>int(s)\<close> for a string: white space around the number is dropped, one sign is allowed,
  and the digits may be grouped by single underscores. Anything else is a
  \<^verbatim>\<open>ValueError\<close>, here \<open>None\<close>.
\<close>

fun int_digits :: "nat \<Rightarrow> string \<Rightarrow> nat option" where
  "int_digits acc [] = Some acc"
| "int_digits acc [c] = (if is_digit c then Some (10 * acc + digit_of c) else None)"
| "int_digits acc (c # d # ds) =
     (if is_digit c then int_digits (10 * acc + digit_of c) (d # ds)
      else if c = CHR ''_'' \<and> is_digit d then int_digits (10 * acc + digit_of d) ds
      else None)"

definition int_unsigned :: "string \<Rightarrow> nat option" where
  "int_unsigned s =
     (case s of [] \<Rightarrow> None
      | c # cs \<Rightarrow> if is_digit c then int_digits (digit_of c) cs else None)"

definition py_int :: "string \<Rightarrow> int option" where
  "py_int s =
     (case py_strip s of [] \<Rightarrow> None
      | c # cs \<Rightarrow>
          if c = CHR ''-'' then map_option (\<lambda>n. - int n) (int_unsigned cs)
          else if c = CHR ''+'' then map_option int (int_unsigned cs)
          else map_option int (int_unsigned (c # cs)))"

section \<open>The bot's files and log\<close>

text \<open>
  \<^verbatim>\<open>validation_data/last_seen_tweet_id.txt\<close> holds text, or is missing.
  \<^verbatim>\<open>validation_data/users_data.json\<close> is missing, holds text that is not JSON, or holds a
  JSON document; \<^verbatim>\<open>json.loads\<close> reads the document and \<^verbatim>\<open>json.dumps\<close> writes it back.
  The log takes one line per \<^verbatim>\<open>logging\<close> call, with its level.
\<close>

datatype log_level = INFO | ERROR

datatype json_file = Absent | Invalid | Document pyval

record files =
  cursor_file :: "string option"
  users_file :: json_file
  log_lines :: "(log_level \<times> string) list"

definition logging_info :: "string \<Rightarrow> files \<Rightarrow> files" where
  "logging_info msg s = s\<lparr>log_lines := log_lines s @ [(INFO, msg)]\<rparr>"

definition logging_error :: "string \<Rightarrow> files \<Rightarrow> files" where
  "logging_error msg s = s\<lparr>log_lines := log_lines s @ [(ERROR, msg)]\<rparr>"

subsection \<open>Cursor store\<close>

definition get_last_seen_tweet_id :: "files \<Rightarrow> (exn + int) \<times> files" where
  "get_last_seen_tweet_id s =
     (let s1 = logging_info ''Retrieing last seen tweet ID'' s
      in case cursor_file s1 of
           None \<Rightarrow> (Inl FileNotFoundError, s1)
         | Some contents \<Rightarrow>
             (case py_int (py_strip contents) of
                None \<Rightarrow> (Inl ValueError, s1)
              | Some last_seen_id \<Rightarrow>
                  (Inr last_seen_id,
                   logging_info (''last seen id: '' @ py_str last_seen_id) s1)))"

definition store_last_seen_tweet_id :: "int \<Rightarrow> files \<Rightarrow> files" where
  "store_last_seen_tweet_id last_seen_tweet_id s =
     (let s1 = logging_info ''Storing last seen tweet ID'' s
      in s1\<lparr>cursor_file := Some (py_str last_seen_tweet_id)\<rparr>)"

subsection \<open>Quota store\<close>

text \<open>
  A user id reaches the quota store as \<^verbatim>\<open>str(user_id)\<close>: the platform hands out integer
  ids, the signatures announce strings.
\<close>

datatype user_id = IdStr string | IdInt int

fun str_of_id :: "user_id \<Rightarrow> string" where
  "str_of_id (IdStr t) = t"
| "str_of_id (IdInt n) = py_str n"

text \<open>\<^verbatim>\<open>open(..., "r")\<close> and \<^verbatim>\<open>json.loads(f.read())\<close> on the quota file.\<close>

definition read_users_data :: "files \<Rightarrow> exn + pyval" where
  "read_users_data s =
     (case users_file s of
        Absent \<Rightarrow> Inl FileNotFoundError
      | Invalid \<Rightarrow> Inl JSONDecodeError
      | Document doc \<Rightarrow> Inr doc)"

text \<open>\<^verbatim>\<open>v[k]\<close> for a string \<open>k\<close>: only a dictionary can be read at a string.\<close>

fun py_getitem :: "pyval \<Rightarrow> string \<Rightarrow> exn + pyval" where
  "py_getitem (PDict d) k = (case dict_get d k of None \<Rightarrow> Inl KeyError | Some v \<Rightarrow> Inr v)"
| "py_getitem _ k = Inl TypeError"

text \<open>\<^verbatim>\<open>int(v)\<close>: integers and booleans convert, a string is parsed, the rest raises.\<close>

fun py_int_of :: "pyval \<Rightarrow> exn + int" where
  "py_int_of (PInt n) = Inr n"
| "py_int_of (PBool b) = Inr (if b then 1 else 0)"
| "py_int_of (PStr t) = (case py_int t of None \<Rightarrow> Inl ValueError | Some n \<Rightarrow> Inr n)"
| "py_int_of _ = Inl TypeError"

text \<open>\<^verbatim>\<open>v + 1\<close>, as \<^verbatim>\<open>v += 1\<close> computes it: defined on integers and booleans only.\<close>

fun py_add_one :: "pyval \<Rightarrow> exn + pyval" where
  "py_add_one (PInt n) = Inr (PInt (n + 1))"
| "py_add_one (PBool b) = Inr (PInt ((if b then 1 else 0) + 1))"
| "py_add_one _ = Inl TypeError"

definition validate_user :: "user_id \<Rightarrow> files \<Rightarrow> (exn + bool) \<times> files" where
  "validate_user user_id s =
     (let s1 = logging_info ''Validating user'' s
      in case read_users_data s1 of
           Inl e \<Rightarrow> (Inl e, s1)
         | Inr (PDict users_data) \<Rightarrow>
             if str_of_id user_id \<in> set (dict_keys users_data) then
               (case py_getitem (PDict users_data) (str_of_id user_id) of
                  Inl e \<Rightarrow> (Inl e, s1)
                | Inr entry \<Rightarrow>
                    (case py_getitem entry ''requests'' of
                       Inl e \<Rightarrow> (Inl e, s1)
                     | Inr user_requests \<Rightarrow>
                         (case py_int_of user_requests of
                            Inl e \<Rightarrow> (Inl e, s1)
                          | Inr n \<Rightarrow> if n \<ge> 5 then (Inr False, s1) else (Inr True, s1))))
             else (Inr True, s1)
         | Inr _ \<Rightarrow> (Inl AttributeError, s1))"

text \<open>
  \<^verbatim>\<open>users_data[str(user_id)]['requests'] += 1\<close>: the entry is read, its count is read,
  one is added, and the sum is stored back in the entry, which stays in its place.
\<close>

definition increment_requests :: "(string \<times> pyval) list \<Rightarrow> string \<Rightarrow> exn + (string \<times> pyval) list" where
  "increment_requests users_data k =
     (case py_getitem (PDict users_data) k of
        Inl e \<Rightarrow> Inl e
      | Inr (PDict entry) \<Rightarrow>
          (case py_getitem (PDict entry) ''requests'' of
             Inl e \<Rightarrow> Inl e
           | Inr r \<Rightarrow>
               (case py_add_one r of
                  Inl e \<Rightarrow> Inl e
                | Inr r' \<Rightarrow> Inr (dict_set k (PDict (dict_set ''requests'' r' entry)) users_data)))
      | Inr _ \<Rightarrow> Inl TypeError)"

definition update_validation_data :: "user_id \<Rightarrow> files \<Rightarrow> (exn + unit) \<times> files" where
  "update_validation_data user_id s =
     (let s1 = logging_info ''Updating validation data'' s
      in case read_users_data s1 of
           Inl e \<Rightarrow> (Inl e, s1)
         | Inr (PDict users_data) \<Rightarrow>
             (case (if str_of_id user_id \<in> set (dict_keys users_data)
                    then increment_requests users_data (str_of_id user_id)
                    else (let new_user_data = [(str_of_id user_id, PDict [(''requests'', PInt 1)])]
                          in Inr (dict_merge users_data new_user_data)))
              of Inl e \<Rightarrow> (Inl e, s1)
               | Inr users_data' \<Rightarrow> (Inr (), s1\<lparr>users_file := Document (PDict users_data')\<rparr>))
         | Inr _ \<Rightarrow> (Inl AttributeError, s1))"

section \<open>The platform API and the bot\<close>

text \<open>
  The platform client is not part of the bot: each of its calls is a field of the bot
  that returns a response or raises. A response of the mentions endpoint carries
  \<^verbatim>\<open>data\<close> (the posts, or \<^verbatim>\<open>None\<close>) and the dictionary \<^verbatim>\<open>includes\<close>.
  \<^verbatim>\<open>stop_words\<close> is the list the constructor builds.
\<close>

record tweet =
  t_id :: int
  t_author_id :: int
  t_text :: string

record user =
  u_id :: int
  u_username :: string

record response =
  resp_data :: "tweet list option"
  resp_includes :: "(string \<times> user list) list"

record bot =
  bot_id :: string
  stop_words :: "string list"
  get_users_mentions :: "string \<Rightarrow> int \<Rightarrow> exn + response"
  get_users_tweets :: "user_id \<Rightarrow> nat \<Rightarrow> exn + tweet list option"
  create_tweet :: "string \<Rightarrow> string \<Rightarrow> exn + unit"



subsection \<open>Mentions, posts and replies\<close>

text \<open>
  The cursor is read before the \<^verbatim>\<open>try\<close>; the bare \<^verbatim>\<open>except\<close> covers the API call and
  the two reads of its response.
\<close>

definition get_mentions :: "bot \<Rightarrow> files \<Rightarrow> (exn + tweet list option \<times> user list) \<times> files" where
  "get_mentions b s =
     (let s1 = logging_info ''Retrieving mentions'' s
      in case get_last_seen_tweet_id s1 of
           (Inl e, s2) \<Rightarrow> (Inl e, s2)
         | (Inr last_seen_tweet_id, s2) \<Rightarrow>
             (case get_users_mentions b (bot_id b) last_seen_tweet_id of
                Inl e \<Rightarrow> (Inr (Some [], []), logging_error ''Couldn't retrieve mentions'' s2)
              | Inr mentions \<Rightarrow>
                  (case dict_get (resp_includes mentions) ''users'' of
                     None \<Rightarrow> (Inr (Some [], []), logging_error ''Couldn't retrieve mentions'' s2)
                   | Some users_metadata \<Rightarrow> (Inr (resp_data mentions, users_metadata), s2))))"

definition fetch_tweets :: "bot \<Rightarrow> user_id \<Rightarrow> files \<Rightarrow> (exn + tweet list option) \<times> files" where
  "fetch_tweets b user_id s =
     (let s1 = logging_info ''Fetching tweets'' s
      in (get_users_tweets b user_id 100, s1))"

definition reply_with_limit_reached :: "bot \<Rightarrow> string \<Rightarrow> string \<Rightarrow> files \<Rightarrow> (exn + unit) \<times> files" where
  "reply_with_limit_reached b tweet_id user_screen_name s =
     (let s1 = logging_info ''Replying with limit reached message'' s;
          reply_text = ''Hi '' @ user_screen_name @ '', Sorry, but you've reached your daily limit of ''
                       @ ''5 requests per day. '' @ ''Please try again tomorrow.''
      in (create_tweet b reply_text tweet_id, s1))"

subsection \<open>Tokenizer\<close>



subsection \<open>Input validation\<close>

text \<open>
  The loop over a list tests \<^verbatim>\<open>r_input in required_input\<close>: membership in the list being
  walked. The result is \<^verbatim>\<open>True\<close>, \<^verbatim>\<open>False\<close>, or \<^verbatim>\<open>None\<close> when the function falls off
  its end. \<^verbatim>\<open>str(tweet_text)\<close> of a missing text is the string \<^verbatim>\<open>None\<close>.
\<close>

fun validate_input_loop :: "pyval list \<Rightarrow> pyval list \<Rightarrow> bool" where
  "validate_input_loop required_input [] = False"
| "validate_input_loop required_input (r_input # rest) =
     (if r_input \<in> set required_input then True else validate_input_loop required_input rest)"

definition validate_input :: "pyval \<Rightarrow> string option \<Rightarrow> bool option" where
  "validate_input required_input tweet_text =
     (let tweet_text = py_lower (case tweet_text of None \<Rightarrow> ''None'' | Some t \<Rightarrow> t)
      in case required_input of
           PList rs \<Rightarrow> Some (validate_input_loop rs rs)
         | PStr r \<Rightarrow> (if str_contains r tweet_text then Some True else Some False)
         | _ \<Rightarrow> None)"

subsection \<open>Parameter extraction\<close>

text \<open>
  The inner loop walks the allowed values of one parameter and stops at the first that
  occurs in the text; the outer loop walks the keys of \<^verbatim>\<open>params_dict\<close> and reads
  \<^verbatim>\<open>params_dict[param]\<close>. A missing text or dictionary (the defaults) has no
  \<^verbatim>\<open>lower\<close> or \<^verbatim>\<open>keys\<close>.
\<close>

fun values_loop :: "string \<Rightarrow> string \<Rightarrow> string list \<Rightarrow> (string \<times> string) list \<Rightarrow> (string \<times> string) list" where
  "values_loop tweet_text param [] params = params"
| "values_loop tweet_text param (v # vs) params =
     (if str_contains v tweet_text then dict_set param v params
      else values_loop tweet_text param vs params)"

fun params_loop ::
  "string \<Rightarrow> (string \<times> string list) list \<Rightarrow> string list \<Rightarrow> (string \<times> string) list
     \<Rightarrow> exn + (string \<times> string) list" where
  "params_loop tweet_text params_dict [] params = Inr params"
| "params_loop tweet_text params_dict (param # rest) params =
     (case dict_get params_dict param of
        None \<Rightarrow> Inl KeyError
      | Some vs \<Rightarrow> params_loop tweet_text params_dict rest (values_loop tweet_text param vs params))"

definition get_params_from_tweet ::
  "string option \<Rightarrow> (string \<times> string list) list option \<Rightarrow> files
     \<Rightarrow> (exn + (string \<times> string) list) \<times> files" where
  "get_params_from_tweet tweet_text params_dict s =
     (let s1 = logging_info ''Extracting parameters from tweet'' s
      in case tweet_text of
           None \<Rightarrow> (Inl AttributeError, s1)
         | Some t \<Rightarrow>
             (case params_dict of
                None \<Rightarrow> (Inl AttributeError, s1)
              | Some pd \<Rightarrow> (params_loop (py_lower t) pd (dict_keys pd) [], s1)))"

section \<open>Notions the properties are stated with\<close>

text \<open>
  The request count a quota entry records, when the entry is a dictionary whose
  \<^verbatim>\<open>requests\<close> field is an integer, and the count the quota file records for a key.
\<close>

definition count_of :: "pyval \<Rightarrow> int option" where
  "count_of entry =
     (case entry of
        PDict flds \<Rightarrow> (case dict_get flds ''requests'' of Some (PInt c) \<Rightarrow> Some c | _ \<Rightarrow> None)
      | _ \<Rightarrow> None)"

definition record_of :: "files \<Rightarrow> string \<Rightarrow> pyval option" where
  "record_of s k =
     (case users_file s of Document (PDict d) \<Rightarrow> dict_get d k | _ \<Rightarrow> None)"

definition requests_of :: "files \<Rightarrow> string \<Rightarrow> int option" where
  "requests_of s k = (case record_of s k of Some entry \<Rightarrow> count_of entry | None \<Rightarrow> None)"

text \<open>The quota invariant: the file is a dictionary and every entry records a count of at least 1.\<close>

definition counts_positive :: "(string \<times> pyval) list \<Rightarrow> bool" where
  "counts_positive d =
     list_all (\<lambda>(k, entry). case count_of entry of Some c \<Rightarrow> 1 \<le> c | None \<Rightarrow> False) d"

definition quota_inv :: "files \<Rightarrow> bool" where
  "quota_inv s = (case users_file s of Document (PDict d) \<Rightarrow> counts_positive d | _ \<Rightarrow> False)"

text \<open>One call of a method of the class that touches the files or the log, on any arguments.\<close>

inductive step :: "files \<Rightarrow> files \<Rightarrow> bool" where
  step_get_last_seen: "step s (snd (get_last_seen_tweet_id s))"
| step_store_last_seen: "step s (store_last_seen_tweet_id n s)"
| step_validate_user: "step s (snd (validate_user u s))"
| step_update_validation_data: "step s (snd (update_validation_data u s))"
| step_get_mentions: "step s (snd (get_mentions b s))"
| step_fetch_tweets: "step s (snd (fetch_tweets b u s))"
| step_reply: "step s (snd (reply_with_limit_reached b i n s))"
| step_get_params: "step s (snd (get_params_from_tweet t pd s))"

text \<open>The states the class reaches from an empty quota store \<^verbatim>\<open>{}\<close>.\<close>

inductive reachable :: "files \<Rightarrow> bool" where
  reachable_init: "users_file s = Document (PDict []) \<Longrightarrow> reachable s"
| reachable_step: "reachable s \<Longrightarrow> step s s' \<Longrightarrow> reachable s'"

text \<open>\<open>n\<close> requests of one user recorded in a row.\<close>

fun record_requests :: "nat \<Rightarrow> user_id \<Rightarrow> files \<Rightarrow> files" where
  "record_requests 0 u s = s"
| "record_requests (Suc n) u s = record_requests n u (snd (update_validation_data u s))"

text \<open>
  The parameter extractor as the specification words it: each parameter, in the order of
  the dictionary, goes to the first of its allowed values that occurs in the lower-cased
  text, and a parameter none of whose values occurs is left out.
\<close>

definition first_match :: "string \<Rightarrow> string list \<Rightarrow> string option" where
  "first_match tweet_text vs = find (\<lambda>v. str_contains v tweet_text) vs"

definition extract_params_spec :: "string \<Rightarrow> (string \<times> string list) list \<Rightarrow> (string \<times> string) list" where
  "extract_params_spec t pd =
     List.map_filter (\<lambda>(param, vs). map_option (Pair param) (first_match (py_lower t) vs)) pd"


text \<open>A bot whose platform is out of reach: each of its API calls raises.\<close>

definition offline_bot :: bot where
  "offline_bot =
     \<lparr>bot_id = ''1'', stop_words = [],
      get_users_mentions = (\<lambda>i since_id. Inl (OtherError ''connection'')),
      get_users_tweets = (\<lambda>u max_results. Inl (OtherError ''connection'')),
      create_tweet = (\<lambda>t i. Inl (OtherError ''connection''))\<rparr>"

section \<open>Decimal conversions are inverse\<close>


lemma is_digit_digit_char: "d < 10 \<Longrightarrow> is_digit (digit_char d)"
  by (simp add: is_digit_def digit_char_def)

lemma digit_of_digit_char: "d < 10 \<Longrightarrow> digit_of (digit_char d) = d"
  by (simp add: digit_of_def digit_char_def)

lemma dec_digits: "list_all is_digit (dec n)"
  by (induction n rule: dec.induct) (subst dec.simps, simp add: is_digit_digit_char)

lemma dec_nonempty: "dec n \<noteq> []"
  by (subst dec.simps) simp

lemma int_digits_foldl:
  "list_all is_digit ds \<Longrightarrow> int_digits acc ds = Some (foldl (\<lambda>a c. 10 * a + digit_of c) acc ds)"
  by (induction acc ds rule: int_digits.induct) simp_all

lemma foldl_dec: "foldl (\<lambda>a c. 10 * a + digit_of c) 0 (dec n) = n"
  by (induction n rule: dec.induct) (subst dec.simps, simp add: digit_of_digit_char)

lemma int_unsigned_dec: "int_unsigned (dec n) = Some n"
proof -
  obtain c cs where d: "dec n = c # cs"
    using dec_nonempty [of n] by (cases "dec n") auto
  have all: "list_all is_digit (c # cs)"
    using dec_digits [of n] d by simp
  have "int_unsigned (dec n) = int_digits (digit_of c) cs"
    using all d by (simp add: int_unsigned_def)
  also have "\<dots> = Some (foldl (\<lambda>a c. 10 * a + digit_of c) (digit_of c) cs)"
    using all by (simp add: int_digits_foldl)
  also have "\<dots> = Some (foldl (\<lambda>a c. 10 * a + digit_of c) 0 (dec n))"
    by (simp add: d)
  finally show ?thesis by (simp add: foldl_dec)
qed

lemma digit_not_space: "is_digit c \<Longrightarrow> \<not> py_isspace c"
  by (auto simp: is_digit_def py_isspace_def Let_def)

lemma digit_not_sign: "is_digit c \<Longrightarrow> c \<noteq> CHR ''-'' \<and> c \<noteq> CHR ''+''"
  by (auto simp: is_digit_def)

lemma py_strip_id:
  assumes "s \<noteq> []" "\<not> py_isspace (hd s)" "\<not> py_isspace (last s)"
  shows "py_strip s = s"
proof -
  have "dropWhile py_isspace s = s"
    using assms by (simp add: dropWhile_eq_self_iff)
  moreover have "dropWhile py_isspace (rev s) = rev s"
    using assms by (simp add: dropWhile_eq_self_iff hd_rev)
  ultimately show ?thesis by (simp add: py_strip_def)
qed

lemma dec_ends: "is_digit (hd (dec n)) \<and> is_digit (last (dec n))"
  using dec_digits [of n] dec_nonempty [of n]
  by (cases "dec n") (auto simp: list_all_iff)

lemma py_strip_py_str: "py_strip (py_str n) = py_str n"
proof (rule py_strip_id)
  show "py_str n \<noteq> []" by (simp add: py_str_def dec_nonempty)
  show "\<not> py_isspace (hd (py_str n))"
    using dec_ends [of "nat n"] by (auto simp: py_str_def py_isspace_def dest: digit_not_space)
  show "\<not> py_isspace (last (py_str n))"
    using dec_ends [of "nat n"] dec_ends [of "nat (- n)"]
    by (auto simp: py_str_def dec_nonempty dest: digit_not_space)
qed

lemma py_int_py_str: "py_int (py_str n) = Some n"
proof (cases "n < 0")
  case True
  then show ?thesis
    by (simp add: py_int_def py_strip_py_str) (simp add: py_str_def int_unsigned_dec)
next
  case False
  obtain c cs where d: "dec (nat n) = c # cs"
    using dec_nonempty [of "nat n"] by (cases "dec (nat n)") auto
  have "is_digit c" using dec_ends [of "nat n"] d by simp
  then have "c \<noteq> CHR ''-''" "c \<noteq> CHR ''+''" using digit_not_sign by auto
  moreover have "py_str n = c # cs" using False d by (simp add: py_str_def)
  moreover have "int_unsigned (c # cs) = Some (nat n)"
    using int_unsigned_dec [of "nat n"] d by simp
  moreover have "py_strip (c # cs) = c # cs"
    using py_strip_py_str [of n] False d by (simp add: py_str_def)
  ultimately show ?thesis using False
    by (simp add: py_int_def)
qed

section \<open>Cursor store\<close>

text \<open>
  C3: for every integer \<open>X\<close>, \<^verbatim>\<open>store_last_seen_tweet_id(X)\<close> followed by
  \<^verbatim>\<open>get_last_seen_tweet_id()\<close> returns \<open>X\<close>: the decimal text written to the cursor file
  is read back, stripped and parsed to the same integer, whatever the files held before.
\<close>

theorem cursor_round_trip:
  "fst (get_last_seen_tweet_id (store_last_seen_tweet_id X s)) = Inr X"
  by (simp add: get_last_seen_tweet_id_def store_last_seen_tweet_id_def logging_info_def
      py_strip_py_str py_int_py_str)

theorem cursor_round_trip_witness:
  "fst (get_last_seen_tweet_id (store_last_seen_tweet_id (-1587)
     \<lparr>cursor_file = None, users_file = Absent, log_lines = []\<rparr>)) = Inr (-1587)"
  using cursor_round_trip [of "-1587" "\<lparr>cursor_file = None, users_file = Absent, log_lines = []\<rparr>"]
  by simp

section \<open>Quota store\<close>

subsection \<open>Dictionaries and the effect of the two operations\<close>

lemma map_of_dict_set: "map_of (dict_set k v d) = (map_of d)(k \<mapsto> v)"
  by (induction d) (auto simp: fun_eq_iff)

lemma dict_get_dict_set: "dict_get (dict_set k v d) k' = (if k' = k then Some v else dict_get d k')"
  by (simp add: dict_get_def map_of_dict_set)

lemma in_dict_keys_iff: "k \<in> set (dict_keys d) \<longleftrightarrow> dict_get d k \<noteq> None"
  by (simp add: dict_keys_def dict_get_def map_of_eq_None_iff)

lemma dict_set_absent: "k \<notin> set (dict_keys d) \<Longrightarrow> dict_set k v d = d @ [(k, v)]"
  by (induction d) (auto simp: dict_keys_def)

lemma dict_keys_dict_set_present: "k \<in> set (dict_keys d) \<Longrightarrow> dict_keys (dict_set k v d) = dict_keys d"
  by (induction d) (force simp: dict_keys_def)+

lemma dict_merge_single: "dict_merge d [(k, v)] = dict_set k v d"
  by (simp add: dict_merge_def)

lemma users_file_logging_info [simp]: "users_file (logging_info m s) = users_file s"
  by (simp add: logging_info_def)

lemma cursor_file_logging_info [simp]: "cursor_file (logging_info m s) = cursor_file s"
  by (simp add: logging_info_def)

lemma users_file_logging_error [simp]: "users_file (logging_error m s) = users_file s"
  by (simp add: logging_error_def)

lemma read_users_data_logging_info [simp]: "read_users_data (logging_info m s) = read_users_data s"
  by (simp add: read_users_data_def)

lemma validate_user_present:
  assumes "users_file s = Document (PDict d)" "dict_get d (str_of_id u) = Some (PDict r)"
    "dict_get r ''requests'' = Some (PInt c)"
  shows "fst (validate_user u s) = Inr (c < 5)"
  using assms by (auto simp: validate_user_def read_users_data_def in_dict_keys_iff Let_def)

lemma validate_user_absent:
  assumes "users_file s = Document (PDict d)" "str_of_id u \<notin> set (dict_keys d)"
  shows "fst (validate_user u s) = Inr True"
  using assms by (simp add: validate_user_def read_users_data_def)

lemma validate_user_files:
  "users_file (snd (validate_user u s)) = users_file s \<and> cursor_file (snd (validate_user u s)) = cursor_file s"
  by (simp add: validate_user_def Let_def split: sum.splits pyval.splits)

lemma update_present:
  assumes "users_file s = Document (PDict d)" "dict_get d (str_of_id u) = Some (PDict r)"
    "dict_get r ''requests'' = Some (PInt c)"
  shows "update_validation_data u s =
    (Inr (), (logging_info ''Updating validation data'' s)
       \<lparr>users_file := Document (PDict (dict_set (str_of_id u)
            (PDict (dict_set ''requests'' (PInt (c + 1)) r)) d))\<rparr>)"
  using assms
  by (simp add: update_validation_data_def read_users_data_def in_dict_keys_iff increment_requests_def)

lemma update_absent:
  assumes "users_file s = Document (PDict d)" "str_of_id u \<notin> set (dict_keys d)"
  shows "update_validation_data u s =
    (Inr (), (logging_info ''Updating validation data'' s)
       \<lparr>users_file := Document (PDict (d @ [(str_of_id u, PDict [(''requests'', PInt 1)])]))\<rparr>)"
  using assms
  by (simp add: update_validation_data_def read_users_data_def dict_merge_single dict_set_absent)

lemma requests_of_Some:
  "requests_of s k = Some c \<longleftrightarrow>
     (\<exists>d r. users_file s = Document (PDict d) \<and> dict_get d k = Some (PDict r)
        \<and> dict_get r ''requests'' = Some (PInt c))"
  by (auto simp: requests_of_def record_of_def count_of_def
      split: json_file.splits pyval.splits option.splits)

lemma increment_requests_frame:
  "increment_requests d k = Inr d' \<Longrightarrow> k' \<noteq> k \<Longrightarrow> dict_get d' k' = dict_get d k'"
  by (auto simp: increment_requests_def dict_get_dict_set split: sum.splits pyval.splits)

lemma update_frame:
  "k' \<noteq> str_of_id u \<Longrightarrow> record_of (snd (update_validation_data u s)) k' = record_of s k'"
  by (auto simp: update_validation_data_def read_users_data_def record_of_def Let_def
      dict_merge_single dict_get_dict_set increment_requests_frame
      split: sum.splits pyval.splits json_file.splits)

lemma requests_after_update:
  assumes "requests_of s (str_of_id u) = Some c"
  shows "fst (update_validation_data u s) = Inr ()
    \<and> requests_of (snd (update_validation_data u s)) (str_of_id u) = Some (c + 1)"
proof -
  from assms obtain d r where
    f: "users_file s = Document (PDict d)" and
    e: "dict_get d (str_of_id u) = Some (PDict r)" and
    r: "dict_get r ''requests'' = Some (PInt c)"
    by (auto simp: requests_of_Some)
  show ?thesis
    by (simp add: update_present [OF f e r] requests_of_def record_of_def count_of_def
        dict_get_dict_set)
qed

lemma requests_after_first:
  assumes "users_file s = Document (PDict d)" "str_of_id u \<notin> set (dict_keys d)"
  shows "fst (update_validation_data u s) = Inr ()
    \<and> requests_of (snd (update_validation_data u s)) (str_of_id u) = Some 1"
proof -
  have "dict_get d (str_of_id u) = None"
    using assms(2) by (simp add: in_dict_keys_iff)
  then show ?thesis
    by (simp add: update_absent [OF assms] requests_of_def record_of_def count_of_def
        dict_get_def map_add_def)
qed

lemma requests_record_requests:
  "requests_of s (str_of_id u) = Some c \<Longrightarrow>
   requests_of (record_requests n u s) (str_of_id u) = Some (c + int n)"
proof (induction n arbitrary: s c)
  case 0
  then show ?case by simp
next
  case (Suc n)
  have "requests_of (snd (update_validation_data u s)) (str_of_id u) = Some (c + 1)"
    using requests_after_update [OF Suc.prems] by simp
  from Suc.IH [OF this] show ?case by (simp add: algebra_simps)
qed

lemma validate_user_requests:
  "requests_of s (str_of_id u) = Some c \<Longrightarrow> fst (validate_user u s) = Inr (c < 5)"
  by (auto simp: requests_of_Some intro: validate_user_present)

lemma validate_after_n_requests:
  assumes "users_file s = Document (PDict d)" "str_of_id u \<notin> set (dict_keys d)"
  shows "fst (validate_user u (record_requests n u s)) = Inr (n < 5)"
proof (cases n)
  case 0
  then show ?thesis using validate_user_absent [OF assms] by simp
next
  case (Suc m)
  have "requests_of (snd (update_validation_data u s)) (str_of_id u) = Some 1"
    using requests_after_first [OF assms] by simp
  then have "requests_of (record_requests n u s) (str_of_id u) = Some (1 + int m)"
    using Suc requests_record_requests by simp
  then have "fst (validate_user u (record_requests n u s)) = Inr (1 + int m < 5)"
    by (rule validate_user_requests)
  then show ?thesis using Suc by simp
qed

subsection \<open>The limit of five requests\<close>

text \<open>
  C1: for a user id whose entry in the quota store records the request count \<open>c\<close>,
  \<^verbatim>\<open>validate_user\<close> returns true exactly when \<open>c < 5\<close>. For a user id with no entry,
  after \<open>n\<close> recorded requests it returns true exactly when \<open>n < 5\<close>: true after the
  4th request, false after the 5th.
\<close>

theorem validate_user_iff_under_limit:
  "(requests_of s (str_of_id u) = Some c \<longrightarrow> fst (validate_user u s) = Inr (c < 5))
   \<and> (users_file s = Document (PDict d) \<and> str_of_id u \<notin> set (dict_keys d)
        \<longrightarrow> fst (validate_user u (record_requests n u s)) = Inr (n < 5))"
  using validate_user_requests validate_after_n_requests by blast

theorem validate_user_iff_under_limit_witness:
  "fst (validate_user (IdStr ''42'')
      \<lparr>cursor_file = None,
       users_file = Document (PDict [(''42'', PDict [(''requests'', PInt 4)])]),
       log_lines = []\<rparr>) = Inr True
   \<and> fst (validate_user (IdStr ''7'') (record_requests 5 (IdStr ''7'')
      \<lparr>cursor_file = None,
       users_file = Document (PDict [(''42'', PDict [(''requests'', PInt 4)])]),
       log_lines = []\<rparr>)) = Inr False"
  using validate_user_iff_under_limit [of
      "\<lparr>cursor_file = None,
        users_file = Document (PDict [(''42'', PDict [(''requests'', PInt 4)])]),
        log_lines = []\<rparr>" "IdStr ''42''" 4 "[(''42'', PDict [(''requests'', PInt 4)])]" 5]
    validate_user_iff_under_limit [of
      "\<lparr>cursor_file = None,
        users_file = Document (PDict [(''42'', PDict [(''requests'', PInt 4)])]),
        log_lines = []\<rparr>" "IdStr ''7''" 0 "[(''42'', PDict [(''requests'', PInt 4)])]" 5]
  by (simp add: requests_of_def record_of_def count_of_def dict_get_def dict_keys_def)

text \<open>
  C2: for a user id that has no entry in the quota store, \<^verbatim>\<open>validate_user\<close> returns
  true; and \<^verbatim>\<open>validate_user\<close> leaves the quota file and the cursor file as they were,
  whatever they hold.
\<close>

theorem validate_user_unknown_user:
  "(users_file s = Document (PDict d) \<and> str_of_id u \<notin> set (dict_keys d)
      \<longrightarrow> fst (validate_user u s) = Inr True)
   \<and> users_file (snd (validate_user u s)) = users_file s
   \<and> cursor_file (snd (validate_user u s)) = cursor_file s"
  using validate_user_absent validate_user_files by blast

theorem validate_user_unknown_user_witness:
  "fst (validate_user (IdStr ''7'')
      \<lparr>cursor_file = Some ''15'',
       users_file = Document (PDict [(''42'', PDict [(''requests'', PInt 9)])]),
       log_lines = []\<rparr>) = Inr True
   \<and> users_file (snd (validate_user (IdStr ''7'')
      \<lparr>cursor_file = Some ''15'',
       users_file = Document (PDict [(''42'', PDict [(''requests'', PInt 9)])]),
       log_lines = []\<rparr>)) = Document (PDict [(''42'', PDict [(''requests'', PInt 9)])])"
  using validate_user_unknown_user [of
      "\<lparr>cursor_file = Some ''15'',
        users_file = Document (PDict [(''42'', PDict [(''requests'', PInt 9)])]),
        log_lines = []\<rparr>" "[(''42'', PDict [(''requests'', PInt 9)])]" "IdStr ''7''"]
  by (simp add: dict_keys_def)

subsection \<open>Recording a request\<close>

text \<open>
  C6: on a quota store that is a dictionary, \<^verbatim>\<open>update_validation_data\<close> raises the
  request count of a user with an entry by exactly 1, keeping the keys, their order and
  the other fields of the entry; for a user with no entry it adds, at the end, an entry
  whose count is 1. In both cases the quota file is rewritten with the whole updated
  dictionary.
\<close>

theorem update_validation_data_counts:
  assumes "users_file s = Document (PDict d)"
  shows
    "(dict_get d (str_of_id u) = Some (PDict r) \<and> dict_get r ''requests'' = Some (PInt c) \<longrightarrow>
        fst (update_validation_data u s) = Inr ()
        \<and> requests_of (snd (update_validation_data u s)) (str_of_id u) = Some (c + 1)
        \<and> (\<exists>d' r'. users_file (snd (update_validation_data u s)) = Document (PDict d')
              \<and> dict_keys d' = dict_keys d
              \<and> map_of d' = (map_of d)(str_of_id u \<mapsto> PDict r')
              \<and> map_of r' = (map_of r)(''requests'' \<mapsto> PInt (c + 1))))
     \<and> (str_of_id u \<notin> set (dict_keys d) \<longrightarrow>
        fst (update_validation_data u s) = Inr ()
        \<and> requests_of (snd (update_validation_data u s)) (str_of_id u) = Some 1
        \<and> users_file (snd (update_validation_data u s)) =
            Document (PDict (d @ [(str_of_id u, PDict [(''requests'', PInt 1)])])))"
proof (intro conjI impI)
  assume a: "dict_get d (str_of_id u) = Some (PDict r) \<and> dict_get r ''requests'' = Some (PInt c)"
  then have e: "dict_get d (str_of_id u) = Some (PDict r)"
    and q: "dict_get r ''requests'' = Some (PInt c)" by simp_all
  have req: "requests_of s (str_of_id u) = Some c"
    using assms e q by (auto simp: requests_of_Some)
  show "fst (update_validation_data u s) = Inr ()"
    using requests_after_update [OF req] by simp
  show "requests_of (snd (update_validation_data u s)) (str_of_id u) = Some (c + 1)"
    using requests_after_update [OF req] by simp
  have k: "str_of_id u \<in> set (dict_keys d)"
    using e by (simp add: in_dict_keys_iff)
  show "\<exists>d' r'. users_file (snd (update_validation_data u s)) = Document (PDict d')
      \<and> dict_keys d' = dict_keys d
      \<and> map_of d' = (map_of d)(str_of_id u \<mapsto> PDict r')
      \<and> map_of r' = (map_of r)(''requests'' \<mapsto> PInt (c + 1))"
  proof (intro exI conjI)
    show "users_file (snd (update_validation_data u s)) =
        Document (PDict (dict_set (str_of_id u) (PDict (dict_set ''requests'' (PInt (c + 1)) r)) d))"
      by (simp add: update_present [OF assms e q])
    show "dict_keys (dict_set (str_of_id u) (PDict (dict_set ''requests'' (PInt (c + 1)) r)) d)
        = dict_keys d"
      by (rule dict_keys_dict_set_present [OF k])
    show "map_of (dict_set (str_of_id u) (PDict (dict_set ''requests'' (PInt (c + 1)) r)) d)
        = (map_of d)(str_of_id u \<mapsto> PDict (dict_set ''requests'' (PInt (c + 1)) r))"
      by (rule map_of_dict_set)
    show "map_of (dict_set ''requests'' (PInt (c + 1)) r) = (map_of r)(''requests'' \<mapsto> PInt (c + 1))"
      by (rule map_of_dict_set)
  qed
next
  assume n: "str_of_id u \<notin> set (dict_keys d)"
  show "fst (update_validation_data u s) = Inr ()"
    using requests_after_first [OF assms n] by simp
  show "requests_of (snd (update_validation_data u s)) (str_of_id u) = Some 1"
    using requests_after_first [OF assms n] by simp
  show "users_file (snd (update_validation_data u s)) =
      Document (PDict (d @ [(str_of_id u, PDict [(''requests'', PInt 1)])]))"
    by (simp add: update_absent [OF assms n])
qed

theorem update_validation_data_counts_witness:
  "requests_of (snd (update_validation_data (IdStr ''42'')
      \<lparr>cursor_file = None,
       users_file = Document (PDict [(''42'', PDict [(''requests'', PInt 4)])]),
       log_lines = []\<rparr>)) ''42'' = Some 5
   \<and> users_file (snd (update_validation_data (IdStr ''7'')
      \<lparr>cursor_file = None,
       users_file = Document (PDict [(''42'', PDict [(''requests'', PInt 4)])]),
       log_lines = []\<rparr>)) =
     Document (PDict [(''42'', PDict [(''requests'', PInt 4)]), (''7'', PDict [(''requests'', PInt 1)])])"
  using update_validation_data_counts [of
      "\<lparr>cursor_file = None,
        users_file = Document (PDict [(''42'', PDict [(''requests'', PInt 4)])]),
        log_lines = []\<rparr>" "[(''42'', PDict [(''requests'', PInt 4)])]"
      "IdStr ''42''" "[(''requests'', PInt 4)]" 4]
    update_validation_data_counts [of
      "\<lparr>cursor_file = None,
        users_file = Document (PDict [(''42'', PDict [(''requests'', PInt 4)])]),
        log_lines = []\<rparr>" "[(''42'', PDict [(''requests'', PInt 4)])]"
      "IdStr ''7''" "[]" 0]
  by (simp add: dict_get_def dict_keys_def)

text \<open>
  C10: whatever the files hold, \<^verbatim>\<open>update_validation_data(X)\<close> leaves the entry of every
  key other than \<^verbatim>\<open>str(X)\<close> as it was in the quota file, and does not touch the
  cursor file.
\<close>

theorem update_validation_data_frame:
  "k' \<noteq> str_of_id u \<longrightarrow>
     record_of (snd (update_validation_data u s)) k' = record_of s k'
     \<and> requests_of (snd (update_validation_data u s)) k' = requests_of s k'
     \<and> cursor_file (snd (update_validation_data u s)) = cursor_file s"
proof
  assume n: "k' \<noteq> str_of_id u"
  have "cursor_file (snd (update_validation_data u s)) = cursor_file s"
    by (simp add: update_validation_data_def Let_def split: sum.splits pyval.splits)
  then show "record_of (snd (update_validation_data u s)) k' = record_of s k'
     \<and> requests_of (snd (update_validation_data u s)) k' = requests_of s k'
     \<and> cursor_file (snd (update_validation_data u s)) = cursor_file s"
    using update_frame [OF n] by (simp add: requests_of_def)
qed

theorem update_validation_data_frame_witness:
  "record_of (snd (update_validation_data (IdStr ''7'')
      \<lparr>cursor_file = None,
       users_file = Document (PDict [(''42'', PDict [(''requests'', PInt 4)]),
                                     (''7'', PDict [(''requests'', PInt 2)])]),
       log_lines = []\<rparr>)) ''42'' = Some (PDict [(''requests'', PInt 4)])"
  using update_validation_data_frame [of "''42''" "IdStr ''7''"
      "\<lparr>cursor_file = None,
        users_file = Document (PDict [(''42'', PDict [(''requests'', PInt 4)]),
                                      (''7'', PDict [(''requests'', PInt 2)])]),
        log_lines = []\<rparr>"]
  by (simp add: record_of_def dict_get_def)

subsection \<open>The quota invariant\<close>

lemma get_last_seen_users_file: "users_file (snd (get_last_seen_tweet_id s)) = users_file s"
  by (simp add: get_last_seen_tweet_id_def Let_def split: option.splits)

lemma store_last_seen_users_file: "users_file (store_last_seen_tweet_id n s) = users_file s"
  by (simp add: store_last_seen_tweet_id_def Let_def)

lemma get_mentions_users_file: "users_file (snd (get_mentions b s)) = users_file s"
  by (simp add: get_mentions_def Let_def get_last_seen_tweet_id_def
      split: option.splits sum.splits prod.splits)

lemma fetch_tweets_users_file: "users_file (snd (fetch_tweets b u s)) = users_file s"
  by (simp add: fetch_tweets_def Let_def)

lemma reply_users_file: "users_file (snd (reply_with_limit_reached b i n s)) = users_file s"
  by (simp add: reply_with_limit_reached_def Let_def)

lemma get_params_users_file: "users_file (snd (get_params_from_tweet t pd s)) = users_file s"
  by (simp add: get_params_from_tweet_def Let_def split: option.splits)

lemma step_users_file:
  "step s s' \<Longrightarrow> users_file s' = users_file s \<or> (\<exists>u. s' = snd (update_validation_data u s))"
  by (induction rule: step.induct)
    (auto simp: get_last_seen_users_file store_last_seen_users_file validate_user_files
      get_mentions_users_file fetch_tweets_users_file reply_users_file get_params_users_file)

lemma counts_positive_dict_set:
  "counts_positive d \<Longrightarrow> count_of v = Some c \<Longrightarrow> 1 \<le> c \<Longrightarrow> counts_positive (dict_set k v d)"
  by (induction d) (auto simp: counts_positive_def)

lemma counts_positive_entry:
  "counts_positive d \<Longrightarrow> dict_get d k = Some v \<Longrightarrow> \<exists>c. count_of v = Some c \<and> 1 \<le> c"
  by (auto simp: counts_positive_def dict_get_def list_all_iff dest!: map_of_SomeD
      split: option.splits)

lemma count_of_Some:
  "count_of v = Some c \<longleftrightarrow> (\<exists>r. v = PDict r \<and> dict_get r ''requests'' = Some (PInt c))"
  by (auto simp: count_of_def split: pyval.splits option.splits)

lemma quota_inv_update:
  assumes "quota_inv s"
  shows "quota_inv (snd (update_validation_data u s))"
proof -
  from assms obtain d where f: "users_file s = Document (PDict d)" and p: "counts_positive d"
    by (auto simp: quota_inv_def split: json_file.splits pyval.splits)
  show ?thesis
  proof (cases "str_of_id u \<in> set (dict_keys d)")
    case True
    then obtain v where v: "dict_get d (str_of_id u) = Some v"
      by (auto simp: in_dict_keys_iff)
    from counts_positive_entry [OF p v] obtain c where c: "count_of v = Some c" "1 \<le> c"
      by blast
    then obtain r where r: "v = PDict r" "dict_get r ''requests'' = Some (PInt c)"
      by (auto simp: count_of_Some)
    have "count_of (PDict (dict_set ''requests'' (PInt (c + 1)) r)) = Some (c + 1)"
      by (simp add: count_of_def dict_get_dict_set)
    moreover have "1 \<le> c + 1" using c(2) by simp
    ultimately have "counts_positive (dict_set (str_of_id u) (PDict (dict_set ''requests'' (PInt (c + 1)) r)) d)"
      using p by (rule counts_positive_dict_set [rotated])
    then show ?thesis
      using update_present [OF f v [unfolded r(1)] r(2)] by (simp add: quota_inv_def)
  next
    case False
    have "count_of (PDict [(''requests'', PInt 1)]) = Some 1"
      by (simp add: count_of_def dict_get_def)
    moreover have "(1::int) \<le> 1" by simp
    ultimately have "counts_positive (dict_set (str_of_id u) (PDict [(''requests'', PInt 1)]) d)"
      using p by (rule counts_positive_dict_set [rotated])
    then show ?thesis
      using update_absent [OF f False] by (simp add: quota_inv_def dict_set_absent [OF False])
  qed
qed

lemma quota_inv_step: "quota_inv s \<Longrightarrow> step s s' \<Longrightarrow> quota_inv s'"
  using step_users_file [of s s'] quota_inv_update by (auto simp: quota_inv_def)

lemma reachable_quota_inv: "reachable s \<Longrightarrow> quota_inv s"
  by (induction rule: reachable.induct)
    (auto simp: quota_inv_def counts_positive_def intro: quota_inv_step [unfolded quota_inv_def])

lemma update_monotone:
  assumes "requests_of s k = Some c"
  shows "\<exists>c'. requests_of (snd (update_validation_data u s)) k = Some c' \<and> c \<le> c'"
proof (cases "k = str_of_id u")
  case True
  then show ?thesis using requests_after_update [of s u c] assms by simp
next
  case False
  then show ?thesis using update_frame [of k u s] assms by (simp add: requests_of_def)
qed

lemma step_monotone:
  assumes "step s s'" "requests_of s k = Some c"
  shows "\<exists>c'. requests_of s' k = Some c' \<and> c \<le> c'"
  using step_users_file [OF assms(1)]
proof
  assume "users_file s' = users_file s"
  then have "requests_of s' k = requests_of s k"
    by (simp add: requests_of_def record_of_def)
  then show ?thesis using assms(2) by simp
next
  assume "\<exists>u. s' = snd (update_validation_data u s)"
  then show ?thesis using update_monotone [OF assms(2)] by auto
qed

text \<open>
  C7: every state the class reaches from an empty quota store satisfies the quota
  invariant (each entry records an integer count of at least 1), and every call of a
  method preserves it; no call of a method lowers or removes a recorded count;
  \<^verbatim>\<open>validate_user\<close> leaves the quota file unchanged, and \<^verbatim>\<open>update_validation_data\<close>
  raises the count of its user by 1.
\<close>

theorem quota_counts_only_grow:
  "(reachable s \<longrightarrow> quota_inv s)
   \<and> (quota_inv s \<and> step s s' \<longrightarrow> quota_inv s')
   \<and> (step s s' \<and> requests_of s k = Some c \<longrightarrow>
        (\<exists>c'. requests_of s' k = Some c' \<and> c \<le> c'))
   \<and> users_file (snd (validate_user u s)) = users_file s
   \<and> (requests_of s (str_of_id u) = Some c \<longrightarrow>
        requests_of (snd (update_validation_data u s)) (str_of_id u) = Some (c + 1))"
  using reachable_quota_inv quota_inv_step step_monotone validate_user_files
    requests_after_update by blast

theorem quota_counts_only_grow_witness:
  "quota_inv (snd (update_validation_data (IdStr ''7'')
      \<lparr>cursor_file = None, users_file = Document (PDict []), log_lines = []\<rparr>))
   \<and> requests_of (snd (update_validation_data (IdStr ''7'')
        (snd (update_validation_data (IdStr ''7'')
          \<lparr>cursor_file = None, users_file = Document (PDict []), log_lines = []\<rparr>)))) ''7''
      = Some 2"
proof -
  let ?s0 = "\<lparr>cursor_file = None, users_file = Document (PDict []), log_lines = []\<rparr>"
  let ?u = "IdStr ''7''"
  let ?s1 = "snd (update_validation_data ?u ?s0)"
  have r0: "reachable ?s0"
    by (rule reachable_init) simp
  have st: "step ?s0 ?s1"
    by (rule step_update_validation_data)
  have q0: "quota_inv ?s0"
    using quota_counts_only_grow [of ?s0 ?s1 "''7''" 0 ?u] r0 by simp
  have q1: "quota_inv ?s1"
    using quota_counts_only_grow [of ?s0 ?s1 "''7''" 0 ?u] q0 st by simp
  have c1: "requests_of ?s1 ''7'' = Some 1"
    using requests_after_first [of ?s0 "[]" ?u] by (simp add: dict_keys_def)
  have "requests_of (snd (update_validation_data ?u ?s1)) ''7'' = Some 2"
    using quota_counts_only_grow [of ?s1 ?s1 "''7''" 1 ?u] c1 by simp
  with q1 show ?thesis by simp
qed

section \<open>Mentions\<close>

lemma get_last_seen_ok:
  "cursor_file s = Some contents \<Longrightarrow> py_int (py_strip contents) = Some n \<Longrightarrow>
   get_last_seen_tweet_id s =
     (Inr n, logging_info (''last seen id: '' @ py_str n)
               (logging_info ''Retrieing last seen tweet ID'' s))"
  by (simp add: get_last_seen_tweet_id_def Let_def)

lemma get_last_seen_missing:
  "cursor_file s = None \<Longrightarrow> fst (get_last_seen_tweet_id s) = Inl FileNotFoundError"
  by (simp add: get_last_seen_tweet_id_def Let_def)

lemma get_last_seen_garbled:
  "cursor_file s = Some contents \<Longrightarrow> py_int (py_strip contents) = None \<Longrightarrow>
   fst (get_last_seen_tweet_id s) = Inl ValueError"
  by (simp add: get_last_seen_tweet_id_def Let_def)

text \<open>
  C5, as stated, fails: with the cursor file missing, or holding text that is no number,
  \<^verbatim>\<open>get_mentions\<close> raises the error of the cursor read, which stands before the
  \<^verbatim>\<open>try\<close>, whatever the platform does.
\<close>

theorem get_mentions_cursor_error_propagates:
  "fst (get_mentions offline_bot
      \<lparr>cursor_file = None, users_file = Document (PDict []), log_lines = []\<rparr>)
     = Inl FileNotFoundError
   \<and> fst (get_mentions offline_bot
      \<lparr>cursor_file = Some ''abc'', users_file = Document (PDict []), log_lines = []\<rparr>)
     = Inl ValueError"
  by (simp add: get_mentions_def get_last_seen_tweet_id_def logging_info_def Let_def
      py_int_def py_strip_def py_isspace_def int_unsigned_def is_digit_def)

text \<open>
  C5, amended: when the cursor read succeeds, \<^verbatim>\<open>get_mentions\<close> returns without raising;
  for every exception the API call raises, and when the response has no \<^verbatim>\<open>users\<close> among
  its includes, it returns \<^verbatim>\<open>([], [])\<close> and the last log line is the error; otherwise
  it returns the posts and the users of the response. An error of the cursor read
  (file missing, text not a number) propagates to the caller.
\<close>

theorem get_mentions_api_errors_caught:
  "(cursor_file s = Some contents \<and> py_int (py_strip contents) = Some n \<longrightarrow>
      (\<exists>r. fst (get_mentions b s) = Inr r)
      \<and> (get_users_mentions b (bot_id b) n = Inl e \<longrightarrow>
            fst (get_mentions b s) = Inr (Some [], [])
            \<and> last (log_lines (snd (get_mentions b s))) = (ERROR, ''Couldn't retrieve mentions''))
      \<and> (get_users_mentions b (bot_id b) n = Inr m \<and> dict_get (resp_includes m) ''users'' = None \<longrightarrow>
            fst (get_mentions b s) = Inr (Some [], [])
            \<and> last (log_lines (snd (get_mentions b s))) = (ERROR, ''Couldn't retrieve mentions''))
      \<and> (get_users_mentions b (bot_id b) n = Inr m \<and> dict_get (resp_includes m) ''users'' = Some us \<longrightarrow>
            fst (get_mentions b s) = Inr (resp_data m, us)))
   \<and> (cursor_file s = None \<longrightarrow> fst (get_mentions b s) = Inl FileNotFoundError)
   \<and> (cursor_file s = Some contents \<and> py_int (py_strip contents) = None \<longrightarrow>
        fst (get_mentions b s) = Inl ValueError)"
proof (intro conjI impI)
  assume "cursor_file s = None"
  then show "fst (get_mentions b s) = Inl FileNotFoundError"
    by (simp add: get_mentions_def get_last_seen_tweet_id_def Let_def)
next
  assume "cursor_file s = Some contents \<and> py_int (py_strip contents) = None"
  then show "fst (get_mentions b s) = Inl ValueError"
    by (simp add: get_mentions_def get_last_seen_tweet_id_def Let_def)
next
  assume a: "cursor_file s = Some contents \<and> py_int (py_strip contents) = Some n"
  then have c: "cursor_file (logging_info ''Retrieving mentions'' s) = Some contents"
    and p: "py_int (py_strip contents) = Some n" by simp_all
  have g: "get_last_seen_tweet_id (logging_info ''Retrieving mentions'' s) =
     (Inr n, logging_info (''last seen id: '' @ py_str n)
               (logging_info ''Retrieing last seen tweet ID''
                  (logging_info ''Retrieving mentions'' s)))"
    by (rule get_last_seen_ok [OF c p])
  show "\<exists>r. fst (get_mentions b s) = Inr r"
    by (simp add: get_mentions_def Let_def g split: sum.splits option.splits)
  {
    assume "get_users_mentions b (bot_id b) n = Inl e"
    then show "fst (get_mentions b s) = Inr (Some [], [])"
      and "last (log_lines (snd (get_mentions b s))) = (ERROR, ''Couldn't retrieve mentions'')"
      by (simp_all add: get_mentions_def Let_def g logging_error_def)
  }
  {
    assume "get_users_mentions b (bot_id b) n = Inr m \<and> dict_get (resp_includes m) ''users'' = None"
    then show "fst (get_mentions b s) = Inr (Some [], [])"
      and "last (log_lines (snd (get_mentions b s))) = (ERROR, ''Couldn't retrieve mentions'')"
      by (simp_all add: get_mentions_def Let_def g logging_error_def)
  }
  {
    assume "get_users_mentions b (bot_id b) n = Inr m \<and> dict_get (resp_includes m) ''users'' = Some us"
    then show "fst (get_mentions b s) = Inr (resp_data m, us)"
      by (simp add: get_mentions_def Let_def g)
  }
qed

theorem get_mentions_api_errors_caught_witness:
  "fst (get_mentions offline_bot
      \<lparr>cursor_file = Some (py_str 15), users_file = Document (PDict []), log_lines = []\<rparr>)
     = Inr (Some [], [])
   \<and> last (log_lines (snd (get_mentions offline_bot
      \<lparr>cursor_file = Some (py_str 15), users_file = Document (PDict []), log_lines = []\<rparr>)))
     = (ERROR, ''Couldn't retrieve mentions'')"
  using get_mentions_api_errors_caught [of
      "\<lparr>cursor_file = Some (py_str 15), users_file = Document (PDict []), log_lines = []\<rparr>"
      "py_str 15" 15 offline_bot "OtherError ''connection''"]
  by (simp add: py_strip_py_str py_int_py_str offline_bot_def)

section \<open>Parameter extraction\<close>

lemma starts_with_iff: "starts_with a b \<longleftrightarrow> (\<exists>q. b = a @ q)"
  by (induction a b rule: starts_with.induct) auto

lemma str_contains_iff: "str_contains a b \<longleftrightarrow> (\<exists>p q. b = p @ a @ q)"
proof (induction b)
  case Nil
  then show ?case by auto
next
  case (Cons c cs)
  have "(\<exists>p q. c # cs = p @ a @ q) \<longleftrightarrow> (\<exists>q. c # cs = a @ q) \<or> (\<exists>p q. cs = p @ a @ q)"
  proof
    assume "\<exists>p q. c # cs = p @ a @ q"
    then obtain p q where e: "c # cs = p @ a @ q" by blast
    show "(\<exists>q. c # cs = a @ q) \<or> (\<exists>p q. cs = p @ a @ q)"
    proof (cases p)
      case Nil
      then show ?thesis using e by auto
    next
      case (Cons x p')
      then have "cs = p' @ a @ q" using e by simp
      then show ?thesis by blast
    qed
  next
    assume "(\<exists>q. c # cs = a @ q) \<or> (\<exists>p q. cs = p @ a @ q)"
    then show "\<exists>p q. c # cs = p @ a @ q"
    proof
      assume "\<exists>q. c # cs = a @ q"
      then obtain q where "c # cs = [] @ a @ q" by auto
      then show ?thesis by blast
    next
      assume "\<exists>p q. cs = p @ a @ q"
      then obtain p q where "c # cs = (c # p) @ a @ q" by auto
      then show ?thesis by blast
    qed
  qed
  then show ?case using Cons by (simp add: starts_with_iff)
qed

lemma values_loop_first_match:
  "values_loop tt param vs params =
     (case first_match tt vs of None \<Rightarrow> params | Some v \<Rightarrow> dict_set param v params)"
  by (induction vs) (simp_all add: first_match_def)

lemma params_loop_items:
  assumes "distinct (map fst pd)"
  shows "set items \<subseteq> set pd \<Longrightarrow> distinct (map fst items)
     \<Longrightarrow> fst ` set items \<inter> fst ` set acc = {}
     \<Longrightarrow> params_loop tt pd (map fst items) acc =
         Inr (acc @ List.map_filter
               (\<lambda>(param, vs). map_option (Pair param) (first_match tt vs)) items)"
proof (induction items arbitrary: acc)
  case Nil
  then show ?case by (simp add: map_filter_simps)
next
  case (Cons it items)
  obtain k vs where it: "it = (k, vs)" by (cases it)
  have "(k, vs) \<in> set pd" using Cons.prems(1) it by simp
  then have g: "dict_get pd k = Some vs"
    using assms by (simp add: dict_get_def)
  have kacc: "k \<notin> set (dict_keys acc)"
    using Cons.prems(3) it by (auto simp: dict_keys_def)
  have krest: "k \<notin> fst ` set items"
    using Cons.prems(2) it by simp
  show ?case
  proof (cases "first_match tt vs")
    case None
    have "params_loop tt pd (map fst (it # items)) acc = params_loop tt pd (map fst items) acc"
      by (simp add: it g values_loop_first_match None)
    also have "\<dots> = Inr (acc @ List.map_filter
               (\<lambda>(param, vs). map_option (Pair param) (first_match tt vs)) items)"
      using Cons.prems by (intro Cons.IH) auto
    finally show ?thesis by (simp add: it map_filter_simps None)
  next
    case (Some v)
    have "params_loop tt pd (map fst (it # items)) acc
        = params_loop tt pd (map fst items) (acc @ [(k, v)])"
      by (simp add: it g values_loop_first_match Some dict_set_absent [OF kacc])
    also have "\<dots> = Inr ((acc @ [(k, v)]) @ List.map_filter
               (\<lambda>(param, vs). map_option (Pair param) (first_match tt vs)) items)"
      using Cons.prems krest by (intro Cons.IH) auto
    finally show ?thesis by (simp add: it map_filter_simps Some)
  qed
qed

lemma params_loop_spec:
  "distinct (dict_keys pd) \<Longrightarrow>
   params_loop (py_lower t) pd (dict_keys pd) [] = Inr (extract_params_spec t pd)"
  using params_loop_items [of pd pd "[]" "py_lower t"]
  by (simp add: dict_keys_def extract_params_spec_def)

lemma params_example_1:
  "params_loop (py_lower ''I want a black sketch'')
     [(''mode'', [''sketch'', ''default'']), (''color'', [''black'', ''white''])]
     (dict_keys [(''mode'', [''sketch'', ''default'']), (''color'', [''black'', ''white''])]) []
   = Inr [(''mode'', ''sketch''), (''color'', ''black'')]"
  by code_simp

lemma params_example_2:
  "params_loop (py_lower ''no matching keywords'') [(''mode'', [''sketch''])]
     (dict_keys [(''mode'', [''sketch''])]) [] = Inr []"
  by code_simp

text \<open>
  C4: for every tweet text and every \<^verbatim>\<open>params_dict\<close> (a dictionary, so its keys are
  distinct), \<^verbatim>\<open>get_params_from_tweet\<close> returns, in the order of the dictionary, each
  parameter with the first of its allowed values that occurs in the lower-cased text
  (\<open>str_contains_iff\<close>: as a contiguous run of characters), and leaves out every parameter
  none of whose values occurs. The two examples of the specification evaluate to
  \<^verbatim>\<open>{"mode": "sketch", "color": "black"}\<close> and \<^verbatim>\<open>{}\<close>.
\<close>

theorem get_params_from_tweet_first_match:
  "(distinct (dict_keys pd) \<longrightarrow>
      fst (get_params_from_tweet (Some t) (Some pd) s) = Inr (extract_params_spec t pd))
   \<and> fst (get_params_from_tweet (Some ''I want a black sketch'')
        (Some [(''mode'', [''sketch'', ''default'']), (''color'', [''black'', ''white''])]) s)
      = Inr [(''mode'', ''sketch''), (''color'', ''black'')]
   \<and> fst (get_params_from_tweet (Some ''no matching keywords'')
        (Some [(''mode'', [''sketch''])]) s) = Inr []"
  by (simp add: get_params_from_tweet_def Let_def params_loop_spec
      params_example_1 params_example_2)

theorem get_params_from_tweet_first_match_witness:
  "fst (get_params_from_tweet (Some ''White or BLACK?'')
        (Some [(''color'', [''black'', ''white'']), (''border'', [''yes'', ''no''])])
        \<lparr>cursor_file = None, users_file = Absent, log_lines = []\<rparr>)
     = Inr [(''color'', ''black'')]"
proof -
  have e: "extract_params_spec ''White or BLACK?''
      [(''color'', [''black'', ''white'']), (''border'', [''yes'', ''no''])]
    = [(''color'', ''black'')]"
    by code_simp
  show ?thesis
    using get_params_from_tweet_first_match [of
        "[(''color'', [''black'', ''white'']), (''border'', [''yes'', ''no''])]"
        "''White or BLACK?''" "\<lparr>cursor_file = None, users_file = Absent, log_lines = []\<rparr>"]
    by (simp add: dict_keys_def e)
qed

section \<open>Tokenizer\<close>





section \<open>Input validation\<close>

lemma validate_input_loop_nonempty:
  "rest \<noteq> [] \<Longrightarrow> set rest \<subseteq> set required_input \<Longrightarrow> validate_input_loop required_input rest"
  by (cases rest) auto

text \<open>
  C9: for every non-empty list \<^verbatim>\<open>required_input\<close> and every \<^verbatim>\<open>tweet_text\<close>, missing or
  not, \<^verbatim>\<open>validate_input\<close> returns \<^verbatim>\<open>True\<close>, since the first element of the list is a
  member of the list; for the empty list it returns \<^verbatim>\<open>False\<close>; for a
  \<^verbatim>\<open>required_input\<close> that is neither a list nor a string it returns \<^verbatim>\<open>None\<close>.
\<close>

theorem validate_input_list_always_true:
  "(rs \<noteq> [] \<longrightarrow> validate_input (PList rs) tweet_text = Some True)
   \<and> validate_input (PList []) tweet_text = Some False
   \<and> ((\<forall>xs. r \<noteq> PList xs) \<and> (\<forall>x. r \<noteq> PStr x) \<longrightarrow> validate_input r tweet_text = None)"
proof (intro conjI impI)
  assume "rs \<noteq> []"
  then show "validate_input (PList rs) tweet_text = Some True"
    using validate_input_loop_nonempty [of rs rs] by (simp add: validate_input_def)
next
  show "validate_input (PList []) tweet_text = Some False"
    by (simp add: validate_input_def)
next
  assume "(\<forall>xs. r \<noteq> PList xs) \<and> (\<forall>x. r \<noteq> PStr x)"
  then show "validate_input r tweet_text = None"
    by (cases r) (simp_all add: validate_input_def)
qed

theorem validate_input_list_always_true_witness:
  "validate_input (PList [PStr ''make tweets cloud'']) (Some ''hello there'') = Some True
   \<and> validate_input (PList [PStr ''make tweets cloud'', PInt 3]) None = Some True
   \<and> validate_input (PInt 3) (Some ''3'') = None
   \<and> validate_input PNone None = None"
  using validate_input_list_always_true [of "[PStr ''make tweets cloud'']" "Some ''hello there''" "PInt 3"]
    validate_input_list_always_true [of "[PStr ''make tweets cloud'', PInt 3]" None PNone]
    validate_input_list_always_true [of "[PStr ''make tweets cloud'']" "Some ''3''" "PInt 3"]
  by simp

end
